theory Spec2Isabelle
  imports Main "HOL-Library.Sublist"
begin

section \<open>Program 10: the JWT authentication middleware\<close>

text \<open>
  The middleware as the project's Readme gives it:
  \<^verbatim>\<open>
  const authMiddleware = (req, res, next) => {
    const token = req.header('Authorization')?.replace('Bearer ', '');
    if (!token) {
      return res.status(401).json({ message: 'Access denied. No token provided.' });
    }
    // ... rest of verification logic
  };
  \<close>
\<close>

subsection \<open>JavaScript strings\<close>

text \<open>
  \<^verbatim>\<open>s.replace(pat, rep)\<close> with a string pattern replaces the first occurrence of
  \<open>pat\<close> in \<open>s\<close>, scanning from the left, and returns \<open>s\<close> when there is none.
  The empty pattern occurs at position 0. The replacement used by the middleware is the
  empty string, so the \<^verbatim>\<open>$\<close> patterns of a replacement string play no role.
\<close>

fun replace :: "string \<Rightarrow> string \<Rightarrow> string \<Rightarrow> string" where
  "replace [] pat rep = (if pat = [] then rep else [])"
| "replace (c # cs) pat rep =
     (if prefix pat (c # cs) then rep @ drop (length pat) (c # cs)
      else c # replace cs pat rep)"

subsection \<open>Request, response and the middleware\<close>

text \<open>
  \<open>authorization\<close> is what \<^verbatim>\<open>req.header('Authorization')\<close> returns: \<open>None\<close> for
  \<^verbatim>\<open>undefined\<close> (the request has no such header), \<open>Some h\<close> for the header's value.
\<close>

record request =
  authorization :: "string option"

text \<open>
  \<^verbatim>\<open>res.status(n).json(obj)\<close>: the status code and the fields of the JSON body.
\<close>

datatype response = Response (status: nat) (json: "(string \<times> string) list")

text \<open>
  The middleware either returns the response it has sent, without calling \<^verbatim>\<open>next\<close>
  and before the verification logic, or falls through to the rest of the verification
  logic with the token it has extracted. That rest is elided in the source, so it is a
  parameter \<open>rest\<close> of the model, applied to the token.
\<close>

datatype 'r outcome = Returned response | Rest 'r

definition no_token_response :: response where
  "no_token_response = Response 401 [(''message'', ''Access denied. No token provided.'')]"

text \<open>
  The optional chaining \<^verbatim>\<open>?.\<close> maps \<^verbatim>\<open>undefined\<close> to \<^verbatim>\<open>undefined\<close>;
  \<^verbatim>\<open>!token\<close> holds of \<^verbatim>\<open>undefined\<close> and of the empty string.
\<close>

definition authMiddleware :: "(string \<Rightarrow> 'r) \<Rightarrow> request \<Rightarrow> 'r outcome" where
  "authMiddleware rest req =
     (let token = map_option (\<lambda>h. replace h ''Bearer '' '''') (authorization req)
      in case token of
           None \<Rightarrow> Returned no_token_response
         | Some t \<Rightarrow> if t = [] then Returned no_token_response else Rest (rest t))"

section \<open>Program 7: the cart kept in the HTTP session\<close>

text \<open>
  The cart retrieval of CartServlet.java, as the Readme gives it:
  \<^verbatim>\<open>
  HttpSession session = request.getSession(true); // Create if doesn't exist
  List<CartItem> cart = (List<CartItem>) session.getAttribute("cart");
  if (cart == null) {
      cart = new ArrayList<>();
      session.setAttribute("cart", cart);
  }
  \<close>
  The container keeps one session per client. The model keys the sessions by the client
  \<open>'p\<close> (the spec's principal); the session id the container draws for a new session is
  not modelled. A session is its attribute table. An attribute is a list of cart items
  \<open>'i\<close> or an object of another class, named by its class; the fields of a cart item
  play no role here.
\<close>

datatype 'i attribute = ListObject "'i list" | OtherObject string

type_synonym 'i session = "string \<rightharpoonup> 'i attribute"

type_synonym ('p, 'i) store = "'p \<rightharpoonup> 'i session"

datatype exception = ClassCastException

text \<open>
  \<^verbatim>\<open>request.getSession(true)\<close> returns the client's current session or, when there
  is none, creates a session with no attribute and returns it.
\<close>

definition getSession_true :: "'p \<Rightarrow> ('p, 'i) store \<Rightarrow> 'i session \<times> ('p, 'i) store" where
  "getSession_true p store =
     (case store p of
        Some session \<Rightarrow> (session, store)
      | None \<Rightarrow> (Map.empty, store(p \<mapsto> Map.empty)))"

definition getAttribute :: "'i session \<Rightarrow> string \<Rightarrow> 'i attribute option" where
  "getAttribute session name = session name"

text \<open>
  \<^verbatim>\<open>session.setAttribute(name, value)\<close> updates the session object the container holds
  for the client.
\<close>

definition setAttribute :: "'p \<Rightarrow> string \<Rightarrow> 'i attribute \<Rightarrow> ('p, 'i) store \<Rightarrow> ('p, 'i) store" where
  "setAttribute p name v store =
     (case store p of
        None \<Rightarrow> store
      | Some session \<Rightarrow> store(p \<mapsto> session(name \<mapsto> v)))"

text \<open>
  The retrieval itself: the cart it yields (or the exception of the cast when the
  attribute is no list) and the session store it leaves.
\<close>

definition getCart :: "'p \<Rightarrow> ('p, 'i) store \<Rightarrow> (exception + 'i list) \<times> ('p, 'i) store" where
  "getCart p store =
     (let (session, store1) = getSession_true p store
      in case getAttribute session ''cart'' of
           None \<Rightarrow> (Inr [], setAttribute p ''cart'' (ListObject []) store1)
         | Some (ListObject cart) \<Rightarrow> (Inr cart, store1)
         | Some (OtherObject cls) \<Rightarrow> (Inl ClassCastException, store1))"

text \<open>
  Modelled from the spec: \<open>clear(principalId)\<close> of the Session Store, "removes the entry;
  used on logout/cart-clear". The handler of \<^verbatim>\<open>POST /cart/clear\<close> in CartServlet.java is
  named in the Readme's endpoint table and its code is not part of the sources.
\<close>

definition clear :: "'p \<Rightarrow> ('p, 'i) store \<Rightarrow> ('p, 'i) store" where
  "clear p store = store(p := None)"

section \<open>Program 7: the synchronized cart update\<close>

text \<open>
  The Readme's remedy for concurrent requests on one session:
  \<^verbatim>\<open>
  // Synchronize session access
  synchronized(session) {
      List<CartItem> cart = (List<CartItem>) session.getAttribute("cart");
      // Modify cart safely
      session.setAttribute("cart", cart);
  }
  \<close>
  Each request runs on a thread of its own; the requests of one client get the same
  session object, whose monitor the block takes. A thread is outside the block (not yet
  in it), has entered it, has fetched the cart attribute, has changed the cart it
  fetched, has stored it, or has left the block.
\<close>

datatype 'c thread = Outside | Entered | Fetched 'c | Changed 'c | Stored | Left

text \<open>
  The shared state: the cart attribute of the session (a value of any type \<open>'c\<close>), the
  thread that holds the session's monitor, if any, and the program point of every thread.
\<close>

record 'c system =
  session_cart :: 'c
  monitor :: "nat option"
  threads :: "'c thread list"

text \<open>
  One step of thread \<open>i\<close>. The modification between the fetch and the store is elided in
  the source: it is a parameter, thread \<open>i\<close> applying \<open>fs ! i\<close> to the cart it fetched
  (whatever the elided code does to the cart, it does it to the cart it fetched). The
  step is \<open>None\<close> when the thread cannot move: it waits for a monitor that is held, or
  it has left the block.
\<close>

definition step :: "('c \<Rightarrow> 'c) list \<Rightarrow> nat \<Rightarrow> 'c system \<Rightarrow> 'c system option" where
  "step fs i s =
     (if i < length (threads s) \<and> i < length fs then
        (case threads s ! i of
           Outside \<Rightarrow>
             (if monitor s = None
              then Some (s\<lparr>monitor := Some i, threads := (threads s)[i := Entered]\<rparr>)
              else None)
         | Entered \<Rightarrow> Some (s\<lparr>threads := (threads s)[i := Fetched (session_cart s)]\<rparr>)
         | Fetched c \<Rightarrow> Some (s\<lparr>threads := (threads s)[i := Changed ((fs ! i) c)]\<rparr>)
         | Changed c \<Rightarrow> Some (s\<lparr>session_cart := c, threads := (threads s)[i := Stored]\<rparr>)
         | Stored \<Rightarrow> Some (s\<lparr>monitor := None, threads := (threads s)[i := Left]\<rparr>)
         | Left \<Rightarrow> None)
      else None)"

text \<open>
  An execution is a schedule, the list of the threads that move, in order; it is \<open>None\<close>
  when the schedule asks a thread to move that cannot.
\<close>

fun run :: "('c \<Rightarrow> 'c) list \<Rightarrow> nat list \<Rightarrow> 'c system \<Rightarrow> 'c system option" where
  "run fs [] s = Some s"
| "run fs (i # sched) s = (case step fs i s of None \<Rightarrow> None | Some s' \<Rightarrow> run fs sched s')"

text \<open>At the start every thread is outside the block and the monitor is free.\<close>

definition init :: "('c \<Rightarrow> 'c) list \<Rightarrow> 'c \<Rightarrow> 'c system" where
  "init fs c0 = \<lparr>session_cart = c0, monitor = None, threads = replicate (length fs) Outside\<rparr>"

text \<open>
  The serial execution of the modifications of the threads \<open>order\<close>, one after the
  other, the first of the list first.
\<close>

definition serial :: "('c \<Rightarrow> 'c) list \<Rightarrow> nat list \<Rightarrow> 'c \<Rightarrow> 'c" where
  "serial fs order c0 = fold (\<lambda>i. fs ! i) order c0"

text \<open>
  The invariant of the executions: the cart is the serial result of the threads that
  have stored, in the order they stored; a thread inside the block holds the monitor,
  and what it has fetched or changed is current.
\<close>

definition quiet :: "'c thread \<Rightarrow> bool" where
  "quiet t \<longleftrightarrow> t = Outside \<or> t = Left"

definition written :: "'c thread \<Rightarrow> bool" where
  "written t \<longleftrightarrow> t = Stored \<or> t = Left"

definition monitor_inv :: "('c \<Rightarrow> 'c) list \<Rightarrow> 'c \<Rightarrow> 'c system \<Rightarrow> bool" where
  "monitor_inv fs c0 s \<longleftrightarrow>
     length (threads s) = length fs
     \<and> (\<exists>order. distinct order
           \<and> set order = {i. i < length fs \<and> written (threads s ! i)}
           \<and> session_cart s = serial fs order c0)
     \<and> (case monitor s of
          None \<Rightarrow> (\<forall>i < length fs. quiet (threads s ! i))
        | Some j \<Rightarrow> j < length fs \<and> \<not> quiet (threads s ! j)
             \<and> (\<forall>i < length fs. i \<noteq> j \<longrightarrow> quiet (threads s ! i))
             \<and> (\<forall>c. threads s ! j = Fetched c \<longrightarrow> c = session_cart s)
             \<and> (\<forall>c. threads s ! j = Changed c \<longrightarrow> c = (fs ! j) (session_cart s)))"



section \<open>The token issuer and verifier\<close>

text \<open>
  Modelled from the spec: \<open>issue\<close> and \<open>verify\<close> of the Token Issuer/Verifier (section
  4.2). The Readme names controllers/authController.js (login, which issues the token)
  and middleware/authMiddleware.js (whose verification logic is elided); neither file
  nor the jsonwebtoken library they call is part of the sources.

  A token encodes principal id, issued-at, expiry and signature. The signature scheme is
  a parameter \<open>sign\<close>: the signature of a payload under a key. Times are natural numbers
  on one clock.
\<close>

record 's token =
  principal :: string
  issued_at :: nat
  expiry :: nat
  signature :: 's

text \<open>
  Modelled from the spec: the error taxonomy of section 7, \<open>AuthError::{Malformed,
  BadSignature, Expired}\<close> of \<open>verify\<close> and \<open>KeyUnavailableError\<close> of \<open>issue\<close>.
\<close>

datatype AuthError = Malformed | BadSignature | Expired

datatype KeyUnavailableError = KeyUnavailableError

text \<open>
  Modelled from the spec: the payload the signature is computed over, the fields of the
  token other than the signature.
\<close>

definition payload :: "'s token \<Rightarrow> string \<times> nat \<times> nat" where
  "payload t = (principal t, issued_at t, expiry t)"

text \<open>
  Modelled from the spec: "\<open>issue(principalId, ttl) -> Token\<close>: binds principal id and an
  absolute expiry timestamp (\<open>now + ttl\<close>), computes a signature over the payload using a
  server-held secret key. Fails with \<open>KeyUnavailableError\<close> if the signing key cannot be
  loaded." The key store is \<open>None\<close> when the key cannot be loaded.
\<close>

definition issue ::
  "('k \<Rightarrow> string \<times> nat \<times> nat \<Rightarrow> 's) \<Rightarrow> 'k option \<Rightarrow> nat \<Rightarrow> string \<Rightarrow> nat
     \<Rightarrow> KeyUnavailableError + 's token" where
  "issue sign keystore now principalId ttl =
     (case keystore of
        None \<Rightarrow> Inl KeyUnavailableError
      | Some key \<Rightarrow>
          Inr \<lparr>principal = principalId, issued_at = now, expiry = now + ttl,
               signature = sign key (principalId, now, now + ttl)\<rparr>)"

text \<open>
  Modelled from the spec: "\<open>verify(token) -> Result<PrincipalId, AuthError>\<close>: recomputes
  the signature from the claimed payload and compares against the presented signature;
  rejects with \<open>AuthError::BadSignature\<close> on mismatch, \<open>AuthError::Expired\<close> if
  \<open>now >= expiry\<close>, \<open>AuthError::Malformed\<close> if the token cannot be parsed", the
  signature check before the expiry check before any use of the payload. The presented
  credential is \<open>None\<close> when the string cannot be parsed, \<open>Some t\<close> with the fields it
  encodes otherwise.
\<close>

definition verify ::
  "('k \<Rightarrow> string \<times> nat \<times> nat \<Rightarrow> 's) \<Rightarrow> 'k \<Rightarrow> nat \<Rightarrow> 's token option \<Rightarrow> AuthError + string" where
  "verify sign key now presented =
     (case presented of
        None \<Rightarrow> Inl Malformed
      | Some t \<Rightarrow>
          if sign key (payload t) \<noteq> signature t then Inl BadSignature
          else if now \<ge> expiry t then Inl Expired
          else Inr (principal t))"

section \<open>The credential hasher\<close>

text \<open>
  Modelled from the spec: \<open>hash\<close> and \<open>verify\<close> of the Credential Hasher (section 4.1).
  The Readme shows only the calls of authController.js into the bcryptjs library
  (\<^verbatim>\<open>bcrypt.genSalt(10)\<close>, \<^verbatim>\<open>bcrypt.hash(password, salt)\<close>,
  \<^verbatim>\<open>bcrypt.compare(password, user.password)\<close>); neither the controller nor the library
  is part of the sources. The salted one-way hash is a parameter \<open>kdf\<close>, the hash value
  of a secret under a salt.
\<close>

datatype HashingError = HashingError

text \<open>
  Modelled from the spec: "\<open>hash(secret) -> (hashValue, salt)\<close>: generates a random salt,
  applies a slow, salted one-way hash. Fails with \<open>HashingError\<close> only on entropy-source
  failure." The entropy source is \<open>None\<close> when it fails and \<open>Some salt\<close> with the salt it
  draws otherwise.
\<close>

definition hasher_hash ::
  "('salt \<Rightarrow> string \<Rightarrow> 'h) \<Rightarrow> 'salt option \<Rightarrow> string \<Rightarrow> HashingError + ('h \<times> 'salt)" where
  "hasher_hash kdf entropy secret =
     (case entropy of
        None \<Rightarrow> Inl HashingError
      | Some salt \<Rightarrow> Inr (kdf salt secret, salt))"

text \<open>
  Modelled from the spec: "\<open>verify(secret, hashValue, salt) -> bool\<close>: recomputes and
  compares in constant time. Never throws on mismatch; returns \<open>false\<close>."
\<close>

definition hasher_verify :: "('salt \<Rightarrow> string \<Rightarrow> 'h) \<Rightarrow> string \<Rightarrow> 'h \<times> 'salt \<Rightarrow> bool" where
  "hasher_verify kdf secret stored =
     (case stored of (hashValue, salt) \<Rightarrow> kdf salt secret = hashValue)"

section \<open>Facts about the middleware\<close>

lemma replace_no_occurrence:
  "\<not> (\<exists>u v. s = u @ pat @ v) \<Longrightarrow> replace s pat rep = s"
proof (induction s)
  case Nil
  then show ?case by auto
next
  case (Cons c cs)
  have np: "\<not> prefix pat (c # cs)"
  proof
    assume "prefix pat (c # cs)"
    then obtain v where "c # cs = pat @ v" by (auto simp: prefix_def)
    then have "c # cs = [] @ pat @ v" by simp
    with Cons.prems show False by blast
  qed
  have "\<not> (\<exists>u v. cs = u @ pat @ v)"
  proof
    assume "\<exists>u v. cs = u @ pat @ v"
    then obtain u v where "cs = u @ pat @ v" by blast
    then have "c # cs = (c # u) @ pat @ v" by simp
    with Cons.prems show False by blast
  qed
  with Cons.IH have "replace cs pat rep = cs" .
  with np show ?case by simp
qed

lemma replace_first_occurrence:
  "s = u @ pat @ v \<Longrightarrow> (\<forall>u' v'. s = u' @ pat @ v' \<longrightarrow> length u \<le> length u')
     \<Longrightarrow> replace s pat rep = u @ rep @ v"
proof (induction u arbitrary: s)
  case Nil
  then have s: "s = pat @ v" by simp
  show ?case
  proof (cases s)
    case Nil
    with s show ?thesis by simp
  next
    case (Cons c cs)
    have "prefix pat (c # cs)" using s Cons by (simp add: prefix_def)
    then have "replace (c # cs) pat rep = rep @ drop (length pat) (c # cs)" by simp
    also have "drop (length pat) (c # cs) = v" using s Cons by simp
    finally show ?thesis using Cons by simp
  qed
next
  case (Cons a u0)
  then have s: "s = a # (u0 @ pat @ v)" by simp
  have np: "\<not> prefix pat s"
  proof
    assume "prefix pat s"
    then obtain w where "s = [] @ pat @ w" by (auto simp: prefix_def)
    with Cons.prems(2) have "length (a # u0) \<le> length ([]::string)" by blast
    then show False by simp
  qed
  have first: "\<forall>u' v'. u0 @ pat @ v = u' @ pat @ v' \<longrightarrow> length u0 \<le> length u'"
  proof (intro allI impI)
    fix u' v' assume "u0 @ pat @ v = u' @ pat @ v'"
    then have "s = (a # u') @ pat @ v'" using s by simp
    with Cons.prems(2) have "length (a # u0) \<le> length (a # u')" by blast
    then show "length u0 \<le> length u'" by simp
  qed
  have "replace (u0 @ pat @ v) pat rep = u0 @ rep @ v"
    using Cons.IH [OF refl first] .
  with np s show ?case by simp
qed

lemma replace_empty_iff:
  "pat \<noteq> [] \<Longrightarrow> replace s pat [] = [] \<longleftrightarrow> s = [] \<or> s = pat"
proof (cases s)
  case Nil
  then show ?thesis by simp
next
  case (Cons c cs)
  assume "pat \<noteq> []"
  show ?thesis
  proof (cases "prefix pat (c # cs)")
    case True
    then obtain v where v: "c # cs = pat @ v" by (auto simp: prefix_def)
    then have d: "drop (length pat) (c # cs) = v" by simp
    have r: "replace (c # cs) pat [] = v" using True d by simp
    have "v = [] \<longleftrightarrow> c # cs = pat" using v by auto
    with r Cons show ?thesis by simp
  next
    case False
    then have "c # cs \<noteq> pat" by auto
    with False Cons show ?thesis by simp
  qed
qed

text \<open>
  C4, as the claim states it, fails: a request whose Authorization header is
  \<^verbatim>\<open>Basic abc\<close> carries no bearer credential, and the middleware does not answer it
  with the 401 response: it forwards the header's value to the rest of the verification
  logic.
\<close>

theorem authMiddleware_non_bearer_counterexample:
  "authorization \<lparr>authorization = Some ''Basic abc''\<rparr> = Some ''Basic abc''
   \<and> \<not> prefix ''Bearer '' ''Basic abc''
   \<and> authMiddleware id \<lparr>authorization = Some ''Basic abc''\<rparr> = Rest ''Basic abc''
   \<and> authMiddleware id \<lparr>authorization = Some ''Basic abc''\<rparr> \<noteq> Returned no_token_response"
  by (simp add: authMiddleware_def)

text \<open>
  C4, amended. The middleware answers with the 401 response "No token provided", before
  the verification logic and without calling \<^verbatim>\<open>next\<close>, exactly the requests whose
  Authorization header is absent or leaves nothing once the first \<^verbatim>\<open>Bearer \<close> is
  removed (the header values \<^verbatim>\<open>""\<close> and \<^verbatim>\<open>"Bearer "\<close>). Every other request,
  whether or not its header carries a bearer credential, is forwarded to the rest of the
  verification logic with what remains of the header. The response is returned: nothing
  is retried.
\<close>

theorem authMiddleware_no_credential:
  "(authMiddleware rest req = Returned no_token_response
      \<longleftrightarrow> authorization req \<in> {None, Some [], Some ''Bearer ''})
   \<and> ((\<exists>h. authorization req = Some h \<and> h \<noteq> [] \<and> h \<noteq> ''Bearer ''
          \<and> authMiddleware rest req = Rest (rest (replace h ''Bearer '' [])))
      \<longleftrightarrow> authorization req \<notin> {None, Some [], Some ''Bearer ''})
   \<and> ((\<exists>r. authMiddleware rest req = Rest r)
      \<longleftrightarrow> authorization req \<notin> {None, Some [], Some ''Bearer ''})
   \<and> status no_token_response = 401"
proof (cases "authorization req")
  case None
  then show ?thesis by (simp add: authMiddleware_def no_token_response_def)
next
  case (Some h)
  have e: "replace h ''Bearer '' [] = [] \<longleftrightarrow> h = [] \<or> h = ''Bearer ''"
    by (rule replace_empty_iff) simp
  show ?thesis
  proof (cases "h = [] \<or> h = ''Bearer ''")
    case True
    with e have "replace h ''Bearer '' [] = []" by blast
    with True Some show ?thesis
      by (auto simp: authMiddleware_def no_token_response_def)
  next
    case False
    with e have "replace h ''Bearer '' [] \<noteq> []" by blast
    with False Some show ?thesis
      by (auto simp: authMiddleware_def no_token_response_def)
  qed
qed

theorem authMiddleware_no_credential_witness:
  "authMiddleware id \<lparr>authorization = None\<rparr> = Returned no_token_response
   \<and> authMiddleware id \<lparr>authorization = Some []\<rparr> = Returned no_token_response
   \<and> authMiddleware id \<lparr>authorization = Some ''Bearer ''\<rparr> = Returned no_token_response
   \<and> authMiddleware id \<lparr>authorization = Some ''Basic abc''\<rparr> \<noteq> Returned no_token_response
   \<and> (\<exists>r. authMiddleware id \<lparr>authorization = Some ''Basic abc''\<rparr> = Rest r)
   \<and> status no_token_response = 401"
proof -
  have a: "authMiddleware id \<lparr>authorization = None\<rparr> = Returned no_token_response"
    using authMiddleware_no_credential [of id "\<lparr>authorization = None\<rparr>"] by simp
  have b: "authMiddleware id \<lparr>authorization = Some []\<rparr> = Returned no_token_response"
    using authMiddleware_no_credential [of id "\<lparr>authorization = Some []\<rparr>"] by simp
  have c: "authMiddleware id \<lparr>authorization = Some ''Bearer ''\<rparr> = Returned no_token_response"
    using authMiddleware_no_credential [of id "\<lparr>authorization = Some ''Bearer ''\<rparr>"] by simp
  have n: "authorization \<lparr>authorization = Some ''Basic abc''\<rparr> \<notin> {None, Some [], Some ''Bearer ''}"
    by simp
  have d: "authMiddleware id \<lparr>authorization = Some ''Basic abc''\<rparr> \<noteq> Returned no_token_response"
    using authMiddleware_no_credential [of id "\<lparr>authorization = Some ''Basic abc''\<rparr>"] n by blast
  have e: "\<exists>r. authMiddleware id \<lparr>authorization = Some ''Basic abc''\<rparr> = Rest r"
    using authMiddleware_no_credential [of id "\<lparr>authorization = Some ''Basic abc''\<rparr>"] n by blast
  have f: "status no_token_response = 401"
    using authMiddleware_no_credential [of id "\<lparr>authorization = None\<rparr>"] by blast
  from a b c d e f show ?thesis by (intro conjI)
qed

text \<open>
  C10, as the claim states it, fails: a request whose Authorization header is present and
  empty does not begin with \<^verbatim>\<open>Bearer \<close>, and it is answered with the 401 response
  "No token provided", since \<^verbatim>\<open>!token\<close> holds of the empty string.
\<close>

theorem authMiddleware_empty_header_counterexample:
  "authorization \<lparr>authorization = Some ''''\<rparr> = Some ''''
   \<and> \<not> prefix ''Bearer '' ''''
   \<and> authMiddleware id \<lparr>authorization = Some ''''\<rparr>
       = Returned (Response 401 [(''message'', ''Access denied. No token provided.'')])"
  by (simp add: authMiddleware_def no_token_response_def)

text \<open>
  C10, amended. For a request whose Authorization header is present with value \<open>h\<close>,
  the middleware removes the first occurrence of \<^verbatim>\<open>Bearer \<close> from \<open>h\<close>, wherever it
  appears (\<open>h\<close> itself when there is none). When what remains is not empty it is forwarded
  to the rest of the verification logic; when it is empty, which happens exactly for the
  header values \<^verbatim>\<open>""\<close> and \<^verbatim>\<open>"Bearer "\<close>, the request is answered with the 401
  response "No token provided", as a request without the header is.
\<close>

theorem authMiddleware_header_present:
  "authorization req = Some h \<Longrightarrow>
     (h = [] \<or> h = ''Bearer '' \<longrightarrow> authMiddleware rest req = Returned no_token_response)
   \<and> (h \<noteq> [] \<and> h \<noteq> ''Bearer '' \<longrightarrow>
        replace h ''Bearer '' [] \<noteq> []
        \<and> authMiddleware rest req = Rest (rest (replace h ''Bearer '' [])))
   \<and> (\<forall>u v. h = u @ ''Bearer '' @ v
          \<and> (\<forall>u' v'. h = u' @ ''Bearer '' @ v' \<longrightarrow> length u \<le> length u')
          \<longrightarrow> replace h ''Bearer '' [] = u @ v)
   \<and> ((\<nexists>u v. h = u @ ''Bearer '' @ v) \<longrightarrow> replace h ''Bearer '' [] = h)"
proof -
  assume h: "authorization req = Some h"
  have e: "replace h ''Bearer '' [] = [] \<longleftrightarrow> h = [] \<or> h = ''Bearer ''"
    by (rule replace_empty_iff) simp
  have 1: "h = [] \<or> h = ''Bearer '' \<longrightarrow> authMiddleware rest req = Returned no_token_response"
    using h e by (simp add: authMiddleware_def)
  have 2: "h \<noteq> [] \<and> h \<noteq> ''Bearer '' \<longrightarrow>
        replace h ''Bearer '' [] \<noteq> []
        \<and> authMiddleware rest req = Rest (rest (replace h ''Bearer '' []))"
    using h e by (simp add: authMiddleware_def)
  have 3: "\<forall>u v. h = u @ ''Bearer '' @ v
          \<and> (\<forall>u' v'. h = u' @ ''Bearer '' @ v' \<longrightarrow> length u \<le> length u')
          \<longrightarrow> replace h ''Bearer '' [] = u @ v"
    using replace_first_occurrence [of h _ "''Bearer ''" _ "[]"] by auto
  have 4: "(\<nexists>u v. h = u @ ''Bearer '' @ v) \<longrightarrow> replace h ''Bearer '' [] = h"
    using replace_no_occurrence [of h "''Bearer ''" "[]"] by blast
  from 1 2 3 4 show ?thesis by blast
qed

theorem authMiddleware_header_present_witness:
  "authMiddleware id \<lparr>authorization = Some ''Bearer ''\<rparr> = Returned no_token_response
   \<and> authMiddleware id \<lparr>authorization = Some ''xBearer y''\<rparr> = Rest ''xy''
   \<and> authMiddleware id \<lparr>authorization = Some ''Basic''\<rparr> = Rest ''Basic''"
proof -
  have a: "authMiddleware id \<lparr>authorization = Some ''Bearer ''\<rparr> = Returned no_token_response"
    using authMiddleware_header_present
      [of "\<lparr>authorization = Some ''Bearer ''\<rparr>" "''Bearer ''" id]
    by simp
  have first: "\<forall>u' v'. ''xBearer y'' = u' @ ''Bearer '' @ v' \<longrightarrow> length ''x'' \<le> length u'"
  proof (intro allI impI)
    fix u' v' :: string
    assume "''xBearer y'' = u' @ ''Bearer '' @ v'"
    then have "u' \<noteq> []" by auto
    then show "length ''x'' \<le> length u'" by (cases u') simp_all
  qed
  have r: "replace ''xBearer y'' ''Bearer '' [] = ''x'' @ ''y''"
    using authMiddleware_header_present
      [of "\<lparr>authorization = Some ''xBearer y''\<rparr>" "''xBearer y''" id] first
    by simp
  have b: "authMiddleware id \<lparr>authorization = Some ''xBearer y''\<rparr> = Rest ''xy''"
    using authMiddleware_header_present
      [of "\<lparr>authorization = Some ''xBearer y''\<rparr>" "''xBearer y''" id] r
    by simp
  have none: "\<nexists>u v. ''Basic'' = u @ ''Bearer '' @ v"
  proof
    assume "\<exists>u v. ''Basic'' = u @ ''Bearer '' @ v"
    then obtain u v where "''Basic'' = u @ ''Bearer '' @ v" by blast
    then have "length ''Basic'' = length (u @ ''Bearer '' @ v)" by (rule arg_cong)
    then show False by simp
  qed
  have c: "authMiddleware id \<lparr>authorization = Some ''Basic''\<rparr> = Rest ''Basic''"
    using authMiddleware_header_present
      [of "\<lparr>authorization = Some ''Basic''\<rparr>" "''Basic''" id] none
    by simp
  from a b c show ?thesis by simp
qed

section \<open>Facts about the session cart\<close>

lemma getCart_no_entry:
  "store p = None \<Longrightarrow> getCart p store = (Inr [], store(p \<mapsto> [''cart'' \<mapsto> ListObject []]))"
  by (simp add: getCart_def getSession_true_def getAttribute_def setAttribute_def)

lemma getCart_no_cart:
  "store p = Some session \<Longrightarrow> session ''cart'' = None \<Longrightarrow>
     getCart p store = (Inr [], store(p \<mapsto> session(''cart'' \<mapsto> ListObject [])))"
  by (simp add: getCart_def getSession_true_def getAttribute_def setAttribute_def)

lemma getCart_cart:
  "store p = Some session \<Longrightarrow> session ''cart'' = Some (ListObject cart) \<Longrightarrow>
     getCart p store = (Inr cart, store)"
  by (simp add: getCart_def getSession_true_def getAttribute_def setAttribute_def)

text \<open>
  C8. Retrieving the cart of a principal that has no session entry yields the empty cart
  and no exception, and so does retrieving it right after \<open>clear\<close>, whatever the store
  held before.
\<close>

theorem getCart_empty_without_entry:
  "(store p = None \<longrightarrow> fst (getCart p store) = Inr [])
   \<and> fst (getCart p (clear p store)) = Inr []"
  by (simp add: getCart_no_entry clear_def)

theorem getCart_empty_without_entry_witness:
  "(Map.empty :: (string, nat) store) ''u1'' = None
   \<and> fst (getCart ''u1'' (Map.empty :: (string, nat) store)) = Inr []
   \<and> fst (getCart ''u1'' (clear ''u1'' [''u1'' \<mapsto> [''cart'' \<mapsto> ListObject [7::nat]]])) = Inr []"
  using getCart_empty_without_entry [of "Map.empty :: (string, nat) store" "''u1''"]
    getCart_empty_without_entry [of "[''u1'' \<mapsto> [''cart'' \<mapsto> ListObject [7::nat]]]" "''u1''"]
  by simp

text \<open>
  C9, as the claim states it, fails: on a store with no entry for \<^verbatim>\<open>u1\<close> the
  retrieval creates the session of \<^verbatim>\<open>u1\<close> and puts an empty cart into it, so the
  store does not stay as it was.
\<close>

theorem getCart_materializes_counterexample:
  "(Map.empty :: (string, nat) store) ''u1'' = None
   \<and> snd (getCart ''u1'' (Map.empty :: (string, nat) store)) ''u1''
       = Some [''cart'' \<mapsto> ListObject []]
   \<and> snd (getCart ''u1'' (Map.empty :: (string, nat) store)) \<noteq> Map.empty"
proof -
  have "snd (getCart ''u1'' (Map.empty :: (string, nat) store)) ''u1''
       = Some [''cart'' \<mapsto> ListObject []]"
    by (simp add: getCart_def getSession_true_def getAttribute_def setAttribute_def)
  then show ?thesis by auto
qed

text \<open>
  C9, amended. A session entry is created lazily on the principal's first cart retrieval,
  a read included: retrieving the cart of a principal with no entry creates the entry,
  holding an empty cart (and a session that holds no cart yet gets an empty one);
  retrieving the cart of a principal whose session already holds one returns it and
  leaves the session store as it was; and a retrieval never touches the entry of another
  principal.
\<close>

theorem getCart_store_effect:
  "(store p = None \<longrightarrow>
      snd (getCart p store) = store(p \<mapsto> [''cart'' \<mapsto> ListObject []]))
   \<and> (\<forall>session. store p = Some session \<and> session ''cart'' = None \<longrightarrow>
        snd (getCart p store) = store(p \<mapsto> session(''cart'' \<mapsto> ListObject [])))
   \<and> (\<forall>session cart. store p = Some session \<and> session ''cart'' = Some (ListObject cart) \<longrightarrow>
        getCart p store = (Inr cart, store))
   \<and> (\<forall>q. q \<noteq> p \<longrightarrow> snd (getCart p store) q = store q)"
proof (intro conjI allI impI)
  assume "store p = None"
  then show "snd (getCart p store) = store(p \<mapsto> [''cart'' \<mapsto> ListObject []])"
    by (simp add: getCart_no_entry)
next
  fix session
  assume "store p = Some session \<and> session ''cart'' = None"
  then show "snd (getCart p store) = store(p \<mapsto> session(''cart'' \<mapsto> ListObject []))"
    by (simp add: getCart_no_cart)
next
  fix session cart
  assume "store p = Some session \<and> session ''cart'' = Some (ListObject cart)"
  then show "getCart p store = (Inr cart, store)"
    by (simp add: getCart_cart)
next
  fix q assume "q \<noteq> p"
  then show "snd (getCart p store) q = store q"
    by (auto simp: getCart_def getSession_true_def getAttribute_def setAttribute_def
        split: option.splits attribute.splits)
qed

theorem getCart_store_effect_witness:
  "snd (getCart ''u1'' (Map.empty :: (string, nat) store)) = [''u1'' \<mapsto> [''cart'' \<mapsto> ListObject []]]
   \<and> snd (getCart ''u1'' ([''u1'' \<mapsto> Map.empty] :: (string, nat) store))
       = [''u1'' \<mapsto> [''cart'' \<mapsto> ListObject []]]
   \<and> getCart ''u1'' [''u1'' \<mapsto> [''cart'' \<mapsto> ListObject [7::nat]]]
       = (Inr [7], [''u1'' \<mapsto> [''cart'' \<mapsto> ListObject [7]]])
   \<and> snd (getCart ''u1'' [''u2'' \<mapsto> [''cart'' \<mapsto> ListObject [7::nat]]]) ''u2''
       = Some [''cart'' \<mapsto> ListObject [7]]"
  using getCart_store_effect [of "Map.empty :: (string, nat) store" "''u1''"]
    getCart_store_effect [of "[''u1'' \<mapsto> Map.empty] :: (string, nat) store" "''u1''"]
    getCart_store_effect [of "[''u1'' \<mapsto> [''cart'' \<mapsto> ListObject [7::nat]]]" "''u1''"]
    getCart_store_effect [of "[''u2'' \<mapsto> [''cart'' \<mapsto> ListObject [7::nat]]]" "''u1''"]
  by simp

section \<open>Facts about the synchronized cart update\<close>

lemma monitor_inv_init: "monitor_inv fs c0 (init fs c0)"
  unfolding monitor_inv_def init_def
  by (auto simp: quiet_def written_def serial_def intro: exI [of _ "[]"])

lemma serial_snoc: "serial fs (order @ [j]) c0 = (fs ! j) (serial fs order c0)"
  by (simp add: serial_def)

lemma monitor_inv_step:
  assumes "monitor_inv fs c0 s" and "step fs i s = Some s'"
  shows "monitor_inv fs c0 s'"
proof -
  from assms(2) have i: "i < length (threads s)" "i < length fs"
    by (auto simp: step_def split: if_splits)
  from assms(1) have len: "length (threads s) = length fs" by (simp add: monitor_inv_def)
  from assms(1) obtain order where ord: "distinct order"
    "set order = {k. k < length fs \<and> written (threads s ! k)}"
    "session_cart s = serial fs order c0"
    unfolding monitor_inv_def by blast
  show ?thesis
  proof (cases "threads s ! i")
    case Outside
    with assms(2) i have m: "monitor s = None"
      and s': "s' = s\<lparr>monitor := Some i, threads := (threads s)[i := Entered]\<rparr>"
      by (auto simp: step_def split: if_splits)
    from assms(1) m have q: "\<forall>k < length fs. quiet (threads s ! k)" by (simp add: monitor_inv_def)
    have w: "{k. k < length fs \<and> written (threads s' ! k)} = {k. k < length fs \<and> written (threads s ! k)}"
      using Outside i len s' by (auto simp: written_def nth_list_update)
    show ?thesis unfolding monitor_inv_def
      using ord w q i len s' by (auto simp: quiet_def nth_list_update)
  next
    case Entered
    with assms(2) i have s': "s' = s\<lparr>threads := (threads s)[i := Fetched (session_cart s)]\<rparr>"
      by (auto simp: step_def)
    from assms(1) Entered i have m: "monitor s = Some i"
      by (auto simp: monitor_inv_def quiet_def split: option.splits)
    have w: "{k. k < length fs \<and> written (threads s' ! k)} = {k. k < length fs \<and> written (threads s ! k)}"
      using Entered i len s' by (auto simp: written_def nth_list_update)
    show ?thesis unfolding monitor_inv_def
      using ord w assms(1) m i len s' by (auto simp: monitor_inv_def quiet_def nth_list_update)
  next
    case (Fetched c)
    with assms(2) i have s': "s' = s\<lparr>threads := (threads s)[i := Changed ((fs ! i) c)]\<rparr>"
      by (auto simp: step_def)
    from assms(1) Fetched i have m: "monitor s = Some i"
      by (auto simp: monitor_inv_def quiet_def split: option.splits)
    with assms(1) Fetched have c: "c = session_cart s" by (simp add: monitor_inv_def)
    have w: "{k. k < length fs \<and> written (threads s' ! k)} = {k. k < length fs \<and> written (threads s ! k)}"
      using Fetched i len s' by (auto simp: written_def nth_list_update)
    show ?thesis unfolding monitor_inv_def
      using ord w assms(1) m c i len s' by (auto simp: monitor_inv_def quiet_def nth_list_update)
  next
    case (Changed c)
    with assms(2) i have s': "s' = s\<lparr>session_cart := c, threads := (threads s)[i := Stored]\<rparr>"
      by (auto simp: step_def)
    from assms(1) Changed i have m: "monitor s = Some i"
      by (auto simp: monitor_inv_def quiet_def split: option.splits)
    with assms(1) Changed have c: "c = (fs ! i) (session_cart s)" by (simp add: monitor_inv_def)
    have ni: "i \<notin> set order" using ord(2) Changed by (simp add: written_def)
    have w: "{k. k < length fs \<and> written (threads s' ! k)} = insert i {k. k < length fs \<and> written (threads s ! k)}"
      using Changed i len s' by (auto simp: written_def nth_list_update)
    have o: "distinct (order @ [i])" "set (order @ [i]) = {k. k < length fs \<and> written (threads s' ! k)}"
      "session_cart s' = serial fs (order @ [i]) c0"
      using ord ni w c s' by (auto simp: serial_snoc)
    have rest: "(case monitor s' of
          None \<Rightarrow> (\<forall>i < length fs. quiet (threads s' ! i))
        | Some j \<Rightarrow> j < length fs \<and> \<not> quiet (threads s' ! j)
             \<and> (\<forall>i < length fs. i \<noteq> j \<longrightarrow> quiet (threads s' ! i))
             \<and> (\<forall>c. threads s' ! j = Fetched c \<longrightarrow> c = session_cart s')
             \<and> (\<forall>c. threads s' ! j = Changed c \<longrightarrow> c = (fs ! j) (session_cart s')))"
      using assms(1) m i len s' by (auto simp: monitor_inv_def quiet_def nth_list_update)
    show ?thesis unfolding monitor_inv_def using o rest len s' by (intro conjI exI [of _ "order @ [i]"]) auto
  next
    case Stored
    with assms(2) i have s': "s' = s\<lparr>monitor := None, threads := (threads s)[i := Left]\<rparr>"
      by (auto simp: step_def)
    from assms(1) Stored i have m: "monitor s = Some i"
      by (auto simp: monitor_inv_def quiet_def split: option.splits)
    have w: "{k. k < length fs \<and> written (threads s' ! k)} = {k. k < length fs \<and> written (threads s ! k)}"
      using Stored i len s' by (auto simp: written_def nth_list_update)
    show ?thesis unfolding monitor_inv_def
      using ord w assms(1) m i len s' by (auto simp: monitor_inv_def quiet_def nth_list_update)
  next
    case Left
    with assms(2) i show ?thesis by (auto simp: step_def)
  qed
qed

lemma monitor_inv_run: "monitor_inv fs c0 s \<Longrightarrow> run fs sched s = Some s' \<Longrightarrow> monitor_inv fs c0 s'"
proof (induction sched arbitrary: s)
  case Nil
  then show ?case by simp
next
  case (Cons i sched)
  then show ?case by (auto split: option.splits dest: monitor_inv_step)
qed

text \<open>
  No execution gets stuck before every thread has left the block: while some thread has
  not, some thread can move.
\<close>

lemma monitor_inv_progress:
  assumes "monitor_inv fs c0 s" and "i < length fs" and "threads s ! i \<noteq> Left"
  shows "\<exists>j s'. step fs j s = Some s'"
proof (cases "monitor s")
  case None
  with assms have "threads s ! i = Outside" and "i < length (threads s)"
    by (auto simp: monitor_inv_def quiet_def)
  with None assms(2) have "step fs i s \<noteq> None" by (simp add: step_def)
  then show ?thesis by blast
next
  case (Some j)
  with assms(1) have "j < length fs" "j < length (threads s)" "\<not> quiet (threads s ! j)"
    by (auto simp: monitor_inv_def)
  then have "step fs j s \<noteq> None"
    by (cases "threads s ! j") (auto simp: step_def quiet_def)
  then show ?thesis by blast
qed

lemma no_deadlock:
  assumes "run fs sched (init fs c0) = Some s" and "i < length fs" and "threads s ! i \<noteq> Left"
  shows "\<exists>j s'. step fs j s = Some s'"
  using monitor_inv_progress [OF monitor_inv_run [OF monitor_inv_init assms(1)] assms(2,3)] .



section \<open>Facts about the token issuer and verifier\<close>

text \<open>
  C1. A token issued at time \<open>t0\<close> with time-to-live \<open>ttl\<close> verifies, yielding the
  principal id it was issued for, at every check time before \<open>t0 + ttl\<close>, and is rejected
  as \<open>Expired\<close> at every check time from \<open>t0 + ttl\<close> on.
\<close>

theorem verify_issued:
  "issue sign (Some key) t0 principalId ttl = Inr t \<Longrightarrow>
     verify sign key now (Some t)
       = (if now < t0 + ttl then Inr principalId else Inl Expired)"
  by (auto simp: issue_def verify_def payload_def)


theorem verify_issued_witness:
  "issue Pair (Some ''k'') 100 ''u1'' 3600
     = Inr \<lparr>principal = ''u1'', issued_at = 100, expiry = 3700,
            signature = (''k'', ''u1'', 100, 3700)\<rparr>
   \<and> verify Pair ''k'' 3699
       (Some \<lparr>principal = ''u1'', issued_at = 100, expiry = 3700,
              signature = (''k'', ''u1'', 100, 3700)\<rparr>) = Inr ''u1''
   \<and> verify Pair ''k'' 3700
       (Some \<lparr>principal = ''u1'', issued_at = 100, expiry = 3700,
              signature = (''k'', ''u1'', 100, 3700)\<rparr>) = Inl Expired"
proof -
  have i: "issue Pair (Some ''k'') 100 ''u1'' 3600
     = Inr \<lparr>principal = ''u1'', issued_at = 100, expiry = 3700,
            signature = (''k'', ''u1'', 100, 3700)\<rparr>"
    by (simp add: issue_def)
  show ?thesis
    using i verify_issued [OF i, of 3699] verify_issued [OF i, of 3700] by simp
qed

section \<open>Facts about the credential hasher\<close>

text \<open>
  A hash function from the secrets, which are strings of any length, into a finite set
  of hash values gives two distinct secrets the same hash value.
\<close>

lemma kdf_collides:
  fixes f :: "string \<Rightarrow> 'h::finite"
  shows "\<exists>s1 s2. s1 \<noteq> s2 \<and> f s1 = f s2"
proof (rule ccontr)
  assume "\<not> (\<exists>s1 s2. s1 \<noteq> s2 \<and> f s1 = f s2)"
  then have "inj f" by (auto simp: inj_on_def)
  moreover have "finite (range f)" by simp
  ultimately have "finite (UNIV :: string set)" by (rule finite_imageD [rotated])
  then show False by (simp add: infinite_UNIV_listI)
qed

text \<open>
  C3, as the claim states it, fails in its second part: whatever the salted hash, when
  its hash values range over a finite set (a hash value of bounded length), under every
  salt there are two distinct secrets of which the one verifies against the hash of the
  other.
\<close>

theorem hasher_verify_distinct_counterexample:
  "\<forall>(kdf :: string \<Rightarrow> string \<Rightarrow> 'h::finite) salt.
     \<exists>s1 s2 stored. s1 \<noteq> s2 \<and> hasher_hash kdf (Some salt) s2 = Inr stored
       \<and> hasher_verify kdf s1 stored"
proof (intro allI)
  fix kdf :: "string \<Rightarrow> string \<Rightarrow> 'h" and salt
  obtain s1 s2 where "s1 \<noteq> s2" "kdf salt s1 = kdf salt s2"
    using kdf_collides [of "kdf salt"] by blast
  then have "s1 \<noteq> s2 \<and> hasher_hash kdf (Some salt) s2 = Inr (kdf salt s2, salt)
       \<and> hasher_verify kdf s1 (kdf salt s2, salt)"
    by (simp add: hasher_hash_def hasher_verify_def)
  then show "\<exists>s1 s2 stored. s1 \<noteq> s2 \<and> hasher_hash kdf (Some salt) s2 = Inr stored
       \<and> hasher_verify kdf s1 stored"
    by blast
qed

text \<open>
  C3, amended. For every secret \<open>s\<close> and every salt drawn, \<open>verify(s, hash(s))\<close> is
  true. A secret \<open>s1\<close> verifies against \<open>hash(s)\<close> exactly when the salted hash gives
  \<open>s1\<close> and \<open>s\<close> the same hash value under the salt of \<open>hash(s)\<close>; so for distinct
  secrets whose hash values differ \<open>verify\<close> answers \<open>false\<close>, as a value and not as an
  exception.
\<close>

theorem hasher_verify_hash:
  "hasher_hash kdf (Some salt) s = Inr stored \<Longrightarrow>
     hasher_verify kdf s stored = True
     \<and> (\<forall>s1. hasher_verify kdf s1 stored = (kdf salt s1 = kdf salt s))
     \<and> (\<forall>s1. kdf salt s1 \<noteq> kdf salt s \<longrightarrow> hasher_verify kdf s1 stored = False)"
proof -
  assume "hasher_hash kdf (Some salt) s = Inr stored"
  then have st: "stored = (kdf salt s, salt)" by (simp add: hasher_hash_def)
  have v: "\<And>s1. hasher_verify kdf s1 stored = (kdf salt s1 = kdf salt s)"
    by (simp add: st hasher_verify_def)
  show ?thesis by (simp add: v)
qed

theorem hasher_verify_hash_witness:
  "hasher_hash append (Some ''NaCl'') ''pw123'' = Inr (''NaClpw123'', ''NaCl'')
   \<and> hasher_verify append ''pw123'' (''NaClpw123'', ''NaCl'') = True
   \<and> append ''NaCl'' ''pw124'' \<noteq> append ''NaCl'' ''pw123''
   \<and> hasher_verify append ''pw124'' (''NaClpw123'', ''NaCl'') = False"
proof -
  have h: "hasher_hash append (Some ''NaCl'') ''pw123'' = Inr (''NaClpw123'', ''NaCl'')"
    by (simp add: hasher_hash_def)
  have d: "append ''NaCl'' ''pw124'' \<noteq> append ''NaCl'' ''pw123''" by simp
  have a: "hasher_verify append ''pw123'' (''NaClpw123'', ''NaCl'') = True"
    by (rule hasher_verify_hash [OF h, THEN conjunct1])
  have b: "hasher_verify append ''pw124'' (''NaClpw123'', ''NaCl'') = False"
    by (rule hasher_verify_hash [OF h, THEN conjunct2, THEN conjunct2, THEN spec, THEN mp, OF d])
  from h a d b show ?thesis by (intro conjI)
qed

end
